theory Spec2Isabelle
  imports Main "HOL-Library.Multiset"
begin

section \<open>Python values, strings and exceptions\<close>

text \<open>
  The module \<^verbatim>\<open>seller.py\<close> works on untyped rows of a spreadsheet and on JSON
  payloads. A Python \<^verbatim>\<open>str\<close> is modelled by its UTF-8 encoding, a \<^typ>\<open>string\<close>.
  The module compares strings for equality, searches them in a list, cuts them at the
  first full stop and deletes the characters that are not ASCII digits; each of these
  gives the same result on the encoding as on the code points, since every byte of a
  multi-byte sequence is at least 128. Only \<^verbatim>\<open>int()\<close> looks at the code points themselves,
  and decodes the bytes to do so.

  An exception is a value \<open>Inl e\<close> of a sum type.
\<close>

datatype error =
    ValueError
  | TypeError
  | AttributeError
  | IndexError
  | HTTPError
  | ReadTimeout
  | ConnectionError
  | BadZipFile
  | FileNotFoundError
  | ParseError

text \<open>
  A cell of a row, as \<^verbatim>\<open>watch.get(key)\<close> returns it: \<open>PNone\<close> when the key is
  absent (or the value is \<^verbatim>\<open>None\<close>), a string, or an integer (a numeric cell read by
  the spreadsheet parser). Floating-point cells are outside this model. A numeric cell of
  the spreadsheet is a double, so an integer cell has at most 309 digits and \<^verbatim>\<open>str()\<close> of it
  is far from the interpreter's limit on the digits of a conversion.
\<close>

datatype pyval = PNone | PStr string | PInt int

definition digit_char :: "nat \<Rightarrow> char" where
  "digit_char d = char_of (of_char CHR ''0'' + d)"

fun str_of_nat :: "nat \<Rightarrow> string" where
  "str_of_nat n = (if n < 10 then [digit_char n] else str_of_nat (n div 10) @ [digit_char (n mod 10)])"

declare str_of_nat.simps [simp del]

definition str_of_int :: "int \<Rightarrow> string" where
  "str_of_int i = (if i < 0 then CHR ''-'' # str_of_nat (nat (- i)) else str_of_nat (nat i))"

text \<open>Python's \<^verbatim>\<open>str(v)\<close>.\<close>

fun py_str :: "pyval \<Rightarrow> string" where
  "py_str PNone = ''None''"
| "py_str (PStr s) = s"
| "py_str (PInt i) = str_of_int i"

definition is_digit :: "char \<Rightarrow> bool" where
  "is_digit c = ((of_char CHR ''0'' :: nat) \<le> of_char c \<and> (of_char c :: nat) \<le> of_char CHR ''9'')"

definition digit_val :: "char \<Rightarrow> nat" where
  "digit_val c = of_char c - of_char CHR ''0''"

text \<open>
  \<^verbatim>\<open>int(s)\<close> reads the code points of \<open>s\<close>, so the bytes that stand for \<open>s\<close> are decoded
  first. \<open>utf8_decode\<close> is the inverse of the UTF-8 encoding, \<open>None\<close> on bytes that encode no
  string.
\<close>

definition continuation :: "nat \<Rightarrow> bool" where
  "continuation b = (128 \<le> b \<and> b < 192)"

fun utf8_decode :: "nat list \<Rightarrow> nat list option" where
  "utf8_decode [] = Some []"
| "utf8_decode [b] = (if b < 128 then Some [b] else None)"
| "utf8_decode [b, c1] =
     (if b < 128 then map_option ((#) b) (utf8_decode [c1])
      else if 194 \<le> b \<and> b < 224 \<and> continuation c1 then Some [(b - 192) * 64 + (c1 - 128)]
      else None)"
| "utf8_decode [b, c1, c2] =
     (if b < 128 then map_option ((#) b) (utf8_decode [c1, c2])
      else if 194 \<le> b \<and> b < 224 \<and> continuation c1
        then map_option ((#) ((b - 192) * 64 + (c1 - 128))) (utf8_decode [c2])
      else if 224 \<le> b \<and> b < 240 \<and> continuation c1 \<and> continuation c2
              \<and> 2048 \<le> (b - 224) * 4096 + (c1 - 128) * 64 + (c2 - 128)
              \<and> \<not> (55296 \<le> (b - 224) * 4096 + (c1 - 128) * 64 + (c2 - 128)
                    \<and> (b - 224) * 4096 + (c1 - 128) * 64 + (c2 - 128) < 57344)
        then Some [(b - 224) * 4096 + (c1 - 128) * 64 + (c2 - 128)]
      else None)"
| "utf8_decode (b # c1 # c2 # c3 # bs) =
     (if b < 128 then map_option ((#) b) (utf8_decode (c1 # c2 # c3 # bs))
      else if 194 \<le> b \<and> b < 224 \<and> continuation c1
        then map_option ((#) ((b - 192) * 64 + (c1 - 128))) (utf8_decode (c2 # c3 # bs))
      else if 224 \<le> b \<and> b < 240 \<and> continuation c1 \<and> continuation c2
              \<and> 2048 \<le> (b - 224) * 4096 + (c1 - 128) * 64 + (c2 - 128)
              \<and> \<not> (55296 \<le> (b - 224) * 4096 + (c1 - 128) * 64 + (c2 - 128)
                    \<and> (b - 224) * 4096 + (c1 - 128) * 64 + (c2 - 128) < 57344)
        then map_option ((#) ((b - 224) * 4096 + (c1 - 128) * 64 + (c2 - 128)))
               (utf8_decode (c3 # bs))
      else if 240 \<le> b \<and> b < 245 \<and> continuation c1 \<and> continuation c2 \<and> continuation c3
              \<and> 65536 \<le> (b - 240) * 262144 + (c1 - 128) * 4096 + (c2 - 128) * 64 + (c3 - 128)
              \<and> (b - 240) * 262144 + (c1 - 128) * 4096 + (c2 - 128) * 64 + (c3 - 128) < 1114112
        then map_option ((#) ((b - 240) * 262144 + (c1 - 128) * 4096 + (c2 - 128) * 64 + (c3 - 128)))
               (utf8_decode bs)
      else None)"

text \<open>
  The white space of Unicode (\<^verbatim>\<open>Py_UNICODE_ISSPACE\<close>), and the decimal digits of Unicode 14.0,
  the table of CPython 3.11: the digits of a script are ten consecutive code points, listed
  here by their zero.
\<close>

definition unicode_isspace :: "nat \<Rightarrow> bool" where
  "unicode_isspace c =
     ((9 \<le> c \<and> c \<le> 13) \<or> (28 \<le> c \<and> c \<le> 32) \<or> c = 133 \<or> c = 160 \<or> c = 5760
      \<or> (8192 \<le> c \<and> c \<le> 8202) \<or> c = 8232 \<or> c = 8233 \<or> c = 8239 \<or> c = 8287 \<or> c = 12288)"

definition decimal_zeros :: "nat list" where
  "decimal_zeros =
     [48, 1632, 1776, 1984, 2406, 2534, 2662, 2790, 2918, 3046, 3174, 3302, 3430, 3558, 3664,
      3792, 3872, 4160, 4240, 6112, 6160, 6470, 6608, 6784, 6800, 6992, 7088, 7232, 7248, 42528,
      43216, 43264, 43472, 43504, 43600, 44016, 65296, 66720, 68912, 69734, 69872, 69942, 70096,
      70384, 70736, 70864, 71248, 71360, 71472, 71904, 72016, 72784, 73040, 73120, 92768, 92864,
      93008, 120782, 120792, 120802, 120812, 120822, 123200, 123632, 125264, 130032]"

definition unicode_todecimal :: "nat \<Rightarrow> nat option" where
  "unicode_todecimal c =
     map_option (\<lambda>z. c - z) (find (\<lambda>z. z \<le> c \<and> c < z + 10) decimal_zeros)"

text \<open>
  Before it parses, \<^verbatim>\<open>int()\<close> rewrites a string that is not pure ASCII: a code point below
  127 stays, white space becomes a space, a decimal digit becomes its ASCII digit, and at
  any other code point the text ends with a question mark.
\<close>

fun decimal_and_space_to_ascii :: "nat list \<Rightarrow> nat list" where
  "decimal_and_space_to_ascii [] = []"
| "decimal_and_space_to_ascii (c # cs) =
     (if c < 127 then c # decimal_and_space_to_ascii cs
      else if unicode_isspace c then 32 # decimal_and_space_to_ascii cs
      else (case unicode_todecimal c of
              None \<Rightarrow> [63]
            | Some d \<Rightarrow> (48 + d) # decimal_and_space_to_ascii cs))"

definition transform_decimal_and_space :: "nat list \<Rightarrow> nat list" where
  "transform_decimal_and_space cs =
     (if list_all (\<lambda>c. c < 128) cs then cs else decimal_and_space_to_ascii cs)"

text \<open>
  The parser of the rewritten text strips the white space of C (\<^verbatim>\<open>Py_ISSPACE\<close>: the
  characters 9 to 13 and the space) from both ends, reads a sign and then the digits.
\<close>

definition is_space :: "char \<Rightarrow> bool" where
  "is_space c = (let k = (of_char c :: nat) in (9 \<le> k \<and> k \<le> 13) \<or> k = 32)"

definition strip :: "string \<Rightarrow> string" where
  "strip s = rev (dropWhile is_space (rev (dropWhile is_space s)))"

text \<open>
  The digits of a decimal literal: at least one digit, and an underscore only between two
  digits. The accumulator is the value read so far.
\<close>

fun int_digits :: "nat \<Rightarrow> string \<Rightarrow> nat option" where
  "int_digits acc [] = Some acc"
| "int_digits acc [c] = (if is_digit c then Some (10 * acc + digit_val c) else None)"
| "int_digits acc (c # d # cs) =
     (if is_digit c then
        (if d = CHR ''_'' then
           (case cs of [] \<Rightarrow> None
            | e # _ \<Rightarrow> if is_digit e then int_digits (10 * acc + digit_val c) cs else None)
         else int_digits (10 * acc + digit_val c) (d # cs))
      else None)"

text \<open>
  The interpreter refuses to convert a text of more than \<open>max_str_digits\<close> digits (4300
  unless the interpreter is configured otherwise; CPython 3.11 and later): it raises
  \<^verbatim>\<open>ValueError\<close>. Underscores and white space do not count, leading zeros do.
\<close>

definition max_str_digits :: nat where
  "max_str_digits = 4300"

definition int_of_ascii :: "string \<Rightarrow> error + int" where
  "int_of_ascii s =
     (let t = strip s;
          (neg, body) = (case t of
                           c # cs \<Rightarrow> if c = CHR ''-'' then (True, cs)
                                     else if c = CHR ''+'' then (False, cs)
                                     else (False, t)
                         | [] \<Rightarrow> (False, t))
      in if body = [] then Inl ValueError
         else (case int_digits 0 body of
                 None \<Rightarrow> Inl ValueError
               | Some n \<Rightarrow>
                   if max_str_digits < length (filter is_digit body) then Inl ValueError
                   else Inr (if neg then - int n else int n)))"

definition int_of_str :: "string \<Rightarrow> error + int" where
  "int_of_str s =
     (case utf8_decode (map of_char s) of
        None \<Rightarrow> Inl ValueError
      | Some cs \<Rightarrow> int_of_ascii (map char_of (transform_decimal_and_space cs)))"

text \<open>
  Python's \<^verbatim>\<open>int(v)\<close>: the integer itself, the value of a decimal literal, \<^verbatim>\<open>ValueError\<close>
  for any other text and \<^verbatim>\<open>TypeError\<close> for \<^verbatim>\<open>None\<close>.
\<close>

fun py_int :: "pyval \<Rightarrow> error + int" where
  "py_int PNone = Inl TypeError"
| "py_int (PStr s) = int_of_str s"
| "py_int (PInt i) = Inr i"

section \<open>Chunking: \<^verbatim>\<open>divide\<close>\<close>

text \<open>
  \<^verbatim>\<open>range(start, stop, step)\<close>: a zero step raises \<^verbatim>\<open>ValueError\<close>; a positive step
  counts up while below \<open>stop\<close>, a negative one counts down while above it.
\<close>

function range_up :: "int \<Rightarrow> int \<Rightarrow> int \<Rightarrow> int list" where
  "range_up i stop step = (if 0 < step \<and> i < stop then i # range_up (i + step) stop step else [])"
  by pat_completeness auto
termination
  by (relation "measure (\<lambda>(i, stop, step). nat (stop - i))") auto

declare range_up.simps [simp del]

function range_down :: "int \<Rightarrow> int \<Rightarrow> int \<Rightarrow> int list" where
  "range_down i stop step = (if step < 0 \<and> stop < i then i # range_down (i + step) stop step else [])"
  by pat_completeness auto
termination
  by (relation "measure (\<lambda>(i, stop, step). nat (i - stop))") auto

declare range_down.simps [simp del]

definition py_range :: "int \<Rightarrow> int \<Rightarrow> int \<Rightarrow> error + int list" where
  "py_range start stop step =
     (if step = 0 then Inl ValueError
      else if 0 < step then Inr (range_up start stop step)
      else Inr (range_down start stop step))"

text \<open>
  The slice \<^verbatim>\<open>lst[i : j]\<close>: a negative bound counts from the end, and both bounds are
  clipped to the list.
\<close>

definition slice_bound :: "nat \<Rightarrow> int \<Rightarrow> nat" where
  "slice_bound len k = (if k < 0 then nat (max 0 (k + int len)) else min (nat k) len)"

definition py_slice :: "'a list \<Rightarrow> int \<Rightarrow> int \<Rightarrow> 'a list" where
  "py_slice lst i j =
     (let lo = slice_bound (length lst) i; hi = slice_bound (length lst) j
      in take (hi - lo) (drop lo lst))"

text \<open>
  \<^verbatim>\<open>divide(lst, n)\<close> is a generator; every caller consumes it at once with \<^verbatim>\<open>list(...)\<close>,
  so the model is the list of the chunks it yields, or the exception of \<^verbatim>\<open>range\<close>.
\<close>

definition divide :: "'a list \<Rightarrow> int \<Rightarrow> error + 'a list list" where
  "divide lst n =
     (case py_range 0 (int (length lst)) n of
        Inl e \<Rightarrow> Inl e
      | Inr idx \<Rightarrow> Inr (map (\<lambda>i. py_slice lst i (i + n)) idx))"

section \<open>Rows, payloads and the outside world\<close>

text \<open>
  A row of the vendor's spreadsheet is a dictionary; the module reads three of its keys,
  each with \<^verbatim>\<open>watch.get(key)\<close>: the code (\<open>Kod\<close>), the quantity (\<open>Kolichestvo\<close>) and
  the price (\<open>Tsena\<close>). The field names transliterate the Cyrillic keys.
\<close>

record watch =
  Kod :: pyval
  Kolichestvo :: pyval
  Tsena :: pyval

text \<open>The two payload dictionaries, with the keys of the source.\<close>

record stock_update =
  offer_id :: string
  stock :: int

record price_update =
  auto_action_enabled :: string
  currency_code :: string
  price_offer_id :: string
  old_price :: string
  price :: string

text \<open>
  One page of the catalogue listing: the object under \<^verbatim>\<open>"result"\<close> of the response,
  with its members \<^verbatim>\<open>items\<close>, \<^verbatim>\<open>total\<close> and \<^verbatim>\<open>last_id\<close>. The response is taken to
  have this shape. Of a product only \<^verbatim>\<open>offer_id\<close> is read.
\<close>

record product =
  product_offer_id :: string

record page =
  result_items :: "product list"
  result_total :: int
  result_last_id :: string

text \<open>What \<^verbatim>\<open>main\<close> prints in its three handlers.\<close>

datatype message =
    TimeoutMessage
  | ConnectionMessage error
  | ErrorMessage error

text \<open>
  The world the module acts on: the state of the remote services, the files of the
  working directory (name to content), the payloads posted to the stock and price
  endpoints so far, in order, and the lines printed.
\<close>

record 'srv world =
  server :: 'srv
  files :: "string \<rightharpoonup> string"
  stocks_sent :: "stock_update list list"
  prices_sent :: "price_update list list"
  printed :: "message list"

text \<open>
  The behaviour of what the module calls but does not define: the three endpoints of the
  marketplace and the vendor's download (each \<^verbatim>\<open>requests\<close> call followed by
  \<^verbatim>\<open>raise_for_status\<close>, the credentials being part of the request), the reading of a
  zip archive and the parsing of the spreadsheet. Each may fail.
\<close>

record 'srv services =
  product_list_endpoint :: "'srv \<Rightarrow> string \<Rightarrow> (error + page) \<times> 'srv"
  import_stocks_endpoint :: "'srv \<Rightarrow> stock_update list \<Rightarrow> (error + unit) \<times> 'srv"
  import_prices_endpoint :: "'srv \<Rightarrow> price_update list \<Rightarrow> (error + unit) \<times> 'srv"
  ostatki_endpoint :: "'srv \<Rightarrow> (error + string) \<times> 'srv"
  zip_members :: "string \<Rightarrow> error + (string \<times> string) list"
  read_excel :: "string \<Rightarrow> error + watch list"

section \<open>The catalogue client\<close>

definition get_product_list ::
  "'srv services \<Rightarrow> string \<Rightarrow> 'srv world \<Rightarrow> (error + page) \<times> 'srv world" where
  "get_product_list sv last_id w =
     (case product_list_endpoint sv (server w) last_id of
        (r, s) \<Rightarrow> (r, w\<lparr>server := s\<rparr>))"

text \<open>
  The \<^verbatim>\<open>while True\<close> loop of \<^verbatim>\<open>get_offer_ids\<close>. It may run forever, so it is a partial
  function: \<open>None\<close> is the run that never leaves the loop.
\<close>

partial_function (option) get_offer_ids_loop ::
  "'srv services \<Rightarrow> string \<Rightarrow> product list \<Rightarrow> 'srv world
     \<Rightarrow> ((error + product list) \<times> 'srv world) option" where
  "get_offer_ids_loop sv last_id product_list w =
     (case get_product_list sv last_id w of
        (Inl e, w') \<Rightarrow> Some (Inl e, w')
      | (Inr some_prod, w') \<Rightarrow>
          (let product_list' = product_list @ result_items some_prod;
               total = result_total some_prod;
               last_id' = result_last_id some_prod
           in if total = int (length product_list') then Some (Inr product_list', w')
              else get_offer_ids_loop sv last_id' product_list' w'))"

definition get_offer_ids ::
  "'srv services \<Rightarrow> 'srv world \<Rightarrow> ((error + string list) \<times> 'srv world) option" where
  "get_offer_ids sv w =
     (case get_offer_ids_loop sv '''' [] w of
        None \<Rightarrow> None
      | Some (Inl e, w') \<Rightarrow> Some (Inl e, w')
      | Some (Inr product_list, w') \<Rightarrow> Some (Inr (map product_offer_id product_list), w'))"

definition update_price ::
  "'srv services \<Rightarrow> price_update list \<Rightarrow> 'srv world \<Rightarrow> (error + unit) \<times> 'srv world" where
  "update_price sv prices w =
     (case import_prices_endpoint sv (server w) prices of
        (r, s) \<Rightarrow> (r, w\<lparr>server := s, prices_sent := prices_sent w @ [prices]\<rparr>))"

definition update_stocks ::
  "'srv services \<Rightarrow> stock_update list \<Rightarrow> 'srv world \<Rightarrow> (error + unit) \<times> 'srv world" where
  "update_stocks sv stocks w =
     (case import_stocks_endpoint sv (server w) stocks of
        (r, s) \<Rightarrow> (r, w\<lparr>server := s, stocks_sent := stocks_sent w @ [stocks]\<rparr>))"

section \<open>The inventory download\<close>

definition extractall :: "(string \<times> string) list \<Rightarrow> (string \<rightharpoonup> string) \<Rightarrow> (string \<rightharpoonup> string)" where
  "extractall members fs = fold (\<lambda>(name, content) f. f(name \<mapsto> content)) members fs"

definition os_remove :: "string \<Rightarrow> (string \<rightharpoonup> string) \<Rightarrow> error + (string \<rightharpoonup> string)" where
  "os_remove name fs = (if fs name = None then Inl FileNotFoundError else Inr (fs(name := None)))"

text \<open>
  \<^verbatim>\<open>download_stock\<close>: the statements run in the order of the source, and the first
  exception ends the function with the working directory as it is at that point.
  \<^verbatim>\<open>"ostatki.xls"\<close> and \<^verbatim>\<open>"./ostatki.xls"\<close> name the same file.
\<close>

definition download_stock ::
  "'srv services \<Rightarrow> 'srv world \<Rightarrow> (error + watch list) \<times> 'srv world" where
  "download_stock sv w =
     (case ostatki_endpoint sv (server w) of
        (Inl e, s) \<Rightarrow> (Inl e, w\<lparr>server := s\<rparr>)
      | (Inr content, s) \<Rightarrow>
          (case zip_members sv content of
             Inl e \<Rightarrow> (Inl e, w\<lparr>server := s\<rparr>)
           | Inr members \<Rightarrow>
               (let w1 = w\<lparr>server := s, files := extractall members (files w)\<rparr>;
                    excel_file = ''ostatki.xls''
                in case files w1 excel_file of
                     None \<Rightarrow> (Inl FileNotFoundError, w1)
                   | Some sheet \<Rightarrow>
                       (case read_excel sv sheet of
                          Inl e \<Rightarrow> (Inl e, w1)
                        | Inr watch_remnants \<Rightarrow>
                            (case os_remove ''ostatki.xls'' (files w1) of
                               Inl e \<Rightarrow> (Inl e, w1)
                             | Inr fs \<Rightarrow> (Inr watch_remnants, w1\<lparr>files := fs\<rparr>))))))"

section \<open>The delta builder\<close>

text \<open>The stock of a matched row: lines 198 to 204 of the source.\<close>

definition stock_of_count :: "pyval \<Rightarrow> error + int" where
  "stock_of_count quantity =
     (let count = py_str quantity
      in if count = ''>10'' then Inr 100
         else if count = ''1'' then Inr 0
         else py_int quantity)"

text \<open>
  The first loop of \<^verbatim>\<open>create_stocks\<close>. \<^verbatim>\<open>offer_ids\<close> is the caller's list object:
  \<^verbatim>\<open>offer_ids.remove(x)\<close> deletes the first occurrence of \<open>x\<close> in place (it is present,
  by the test before it), so the loop returns the content of that object next to its
  result, also when an exception ends it.
\<close>

fun create_stocks_loop ::
  "watch list \<Rightarrow> stock_update list \<Rightarrow> string list \<Rightarrow> (error + stock_update list) \<times> string list" where
  "create_stocks_loop [] stocks offer_ids = (Inr stocks, offer_ids)"
| "create_stocks_loop (w # watch_remnants) stocks offer_ids =
     (if py_str (Kod w) \<in> set offer_ids then
        (case stock_of_count (Kolichestvo w) of
           Inl e \<Rightarrow> (Inl e, offer_ids)
         | Inr n \<Rightarrow>
             create_stocks_loop watch_remnants
               (stocks @ [\<lparr>offer_id = py_str (Kod w), stock = n\<rparr>])
               (remove1 (py_str (Kod w)) offer_ids))
      else create_stocks_loop watch_remnants stocks offer_ids)"

text \<open>
  \<^verbatim>\<open>create_stocks\<close> returns the list of updates, or the exception, together with the content
  of the caller's \<^verbatim>\<open>offer_ids\<close> after the call.
\<close>

definition create_stocks ::
  "watch list \<Rightarrow> string list \<Rightarrow> (error + stock_update list) \<times> string list" where
  "create_stocks watch_remnants offer_ids =
     (case create_stocks_loop watch_remnants [] offer_ids of
        (Inl e, offer_ids') \<Rightarrow> (Inl e, offer_ids')
      | (Inr stocks, offer_ids') \<Rightarrow>
          (Inr (stocks @ map (\<lambda>x. \<lparr>offer_id = x, stock = 0\<rparr>) offer_ids'), offer_ids'))"

text \<open>
  \<^verbatim>\<open>price.split(".")\<close>: the pieces of the string between the full stops, at least one.
\<close>

fun split_dot :: "string \<Rightarrow> string list" where
  "split_dot [] = [[]]"
| "split_dot (c # cs) =
     (if c = CHR ''.'' then [] # split_dot cs
      else (case split_dot cs of
              [] \<Rightarrow> [[c]]
            | piece # pieces \<Rightarrow> (c # piece) # pieces))"

text \<open>\<^verbatim>\<open>re.sub("[^0-9]", "", s)\<close> deletes every character outside the class.\<close>

definition re_sub_non_digits :: "string \<Rightarrow> string" where
  "re_sub_non_digits s = filter is_digit s"

definition price_conversion :: "pyval \<Rightarrow> error + string" where
  "price_conversion v =
     (case v of
        PStr s \<Rightarrow>
          (case split_dot s of
             [] \<Rightarrow> Inl IndexError
           | piece # _ \<Rightarrow> Inr (re_sub_non_digits piece))
      | _ \<Rightarrow> Inl AttributeError)"

text \<open>\<^verbatim>\<open>create_prices\<close> only reads \<^verbatim>\<open>offer_ids\<close>.\<close>

fun create_prices_loop ::
  "watch list \<Rightarrow> price_update list \<Rightarrow> string list \<Rightarrow> error + price_update list" where
  "create_prices_loop [] prices offer_ids = Inr prices"
| "create_prices_loop (w # watch_remnants) prices offer_ids =
     (if py_str (Kod w) \<in> set offer_ids then
        (case price_conversion (Tsena w) of
           Inl e \<Rightarrow> Inl e
         | Inr p \<Rightarrow>
             create_prices_loop watch_remnants
               (prices @ [\<lparr>auto_action_enabled = ''UNKNOWN'', currency_code = ''RUB'',
                            price_offer_id = py_str (Kod w), old_price = ''0'', price = p\<rparr>])
               offer_ids)
      else create_prices_loop watch_remnants prices offer_ids)"

definition create_prices :: "watch list \<Rightarrow> string list \<Rightarrow> error + price_update list" where
  "create_prices watch_remnants offer_ids = create_prices_loop watch_remnants [] offer_ids"

section \<open>The orchestration\<close>

text \<open>A \<^verbatim>\<open>for\<close> loop whose body acts on the world; the first exception ends it.\<close>

fun for_each ::
  "('a \<Rightarrow> 'w \<Rightarrow> (error + unit) \<times> 'w) \<Rightarrow> 'a list \<Rightarrow> 'w \<Rightarrow> (error + unit) \<times> 'w" where
  "for_each body [] w = (Inr (), w)"
| "for_each body (x # xs) w =
     (case body x w of
        (Inl e, w') \<Rightarrow> (Inl e, w')
      | (Inr _, w') \<Rightarrow> for_each body xs w')"



text \<open>
  Lines 341 to 347 of \<^verbatim>\<open>main\<close>: the stock updates are built and pushed, then the price
  updates, from the same list object \<^verbatim>\<open>offer_ids\<close>, which \<^verbatim>\<open>create_stocks\<close> has changed
  by then.
\<close>

definition main_updates ::
  "'srv services \<Rightarrow> watch list \<Rightarrow> string list \<Rightarrow> 'srv world \<Rightarrow> (error + unit) \<times> 'srv world" where
  "main_updates sv watch_remnants offer_ids w =
     (case create_stocks watch_remnants offer_ids of
        (Inl e, offer_ids') \<Rightarrow> (Inl e, w)
      | (Inr stocks, offer_ids') \<Rightarrow>
          (case divide stocks 100 of
             Inl e \<Rightarrow> (Inl e, w)
           | Inr stock_batches \<Rightarrow>
               (case for_each (update_stocks sv) stock_batches w of
                  (Inl e, w1) \<Rightarrow> (Inl e, w1)
                | (Inr _, w1) \<Rightarrow>
                    (case create_prices watch_remnants offer_ids' of
                       Inl e \<Rightarrow> (Inl e, w1)
                     | Inr prices \<Rightarrow>
                         (case divide prices 900 of
                            Inl e \<Rightarrow> (Inl e, w1)
                          | Inr price_batches \<Rightarrow> for_each (update_price sv) price_batches w1)))))"

text \<open>The \<^verbatim>\<open>try\<close> block of \<^verbatim>\<open>main\<close>, once both credentials have been read.\<close>

definition main_try :: "'srv services \<Rightarrow> 'srv world \<Rightarrow> ((error + unit) \<times> 'srv world) option" where
  "main_try sv w =
     (case get_offer_ids sv w of
        None \<Rightarrow> None
      | Some (Inl e, w1) \<Rightarrow> Some (Inl e, w1)
      | Some (Inr offer_ids, w1) \<Rightarrow>
          Some (case download_stock sv w1 of
                  (Inl e, w2) \<Rightarrow> (Inl e, w2)
                | (Inr watch_remnants, w2) \<Rightarrow> main_updates sv watch_remnants offer_ids w2))"

fun handler_message :: "error \<Rightarrow> message" where
  "handler_message ReadTimeout = TimeoutMessage"
| "handler_message ConnectionError = ConnectionMessage ConnectionError"
| "handler_message e = ErrorMessage e"

definition main :: "'srv services \<Rightarrow> 'srv world \<Rightarrow> 'srv world option" where
  "main sv w =
     (case main_try sv w of
        None \<Rightarrow> None
      | Some (Inl e, w') \<Rightarrow> Some (w'\<lparr>printed := printed w' @ [handler_message e]\<rparr>)
      | Some (Inr _, w') \<Rightarrow> Some w')"

section \<open>Notions used in the statements\<close>

text \<open>
  A numeric text is a non-empty string of ASCII digits; \<open>decimal\<close> is the number it
  denotes. A quantity cell is well formed when it is the text \<^verbatim>\<open>">10"\<close>, a numeric text
  of at most \<open>max_str_digits\<close> digits, or an integer.
\<close>

definition numeric_text :: "string \<Rightarrow> bool" where
  "numeric_text s = (s \<noteq> [] \<and> list_all is_digit s)"

definition decimal :: "string \<Rightarrow> nat" where
  "decimal s = foldl (\<lambda>a c. 10 * a + digit_val c) 0 s"


text \<open>The rows used in the examples: the one of the docstrings and the one of the end-to-end test.\<close>

definition docstring_rows :: "watch list" where
  "docstring_rows = [\<lparr>Kod = PStr ''12345'', Kolichestvo = PStr ''5'', Tsena = PStr ''5990.00''\<rparr>]"

definition example_rows :: "watch list" where
  "example_rows = [\<lparr>Kod = PStr ''A'', Kolichestvo = PStr ''>10'', Tsena = PStr ''1'234.00 x''\<rparr>]"




text \<open>
  The first \<open>k\<close> pages of the listing, each requested with the cursor of the one before,
  and the world after them; \<open>None\<close> when one of the requests fails. \<open>count_matches acc ps\<close>
  says that the total reported by the last of the pages \<open>ps\<close> is the number of items
  accumulated with it, \<open>acc\<close> being the items held before the first of them.
\<close>

fun pages_after ::
  "'srv services \<Rightarrow> nat \<Rightarrow> string \<Rightarrow> 'srv world \<Rightarrow> (page list \<times> 'srv world) option" where
  "pages_after sv 0 last_id w = Some ([], w)"
| "pages_after sv (Suc k) last_id w =
     (case get_product_list sv last_id w of
        (Inl e, w') \<Rightarrow> None
      | (Inr p, w') \<Rightarrow>
          (case pages_after sv k (result_last_id p) w' of
             None \<Rightarrow> None
           | Some (ps, w'') \<Rightarrow> Some (p # ps, w'')))"

definition count_matches :: "product list \<Rightarrow> page list \<Rightarrow> bool" where
  "count_matches acc ps =
     (ps \<noteq> [] \<and> result_total (last ps) = int (length (acc @ concat (map result_items ps))))"

text \<open>
  A marketplace whose listing has 2000 products and serves them in pages of 1000 (its
  state counts the requests served), whose other endpoints accept every request, and a
  vendor whose archive holds the spreadsheet of the example rows.
\<close>

definition thousand_page :: page where
  "thousand_page =
     \<lparr>result_items = replicate 1000 \<lparr>product_offer_id = ''x''\<rparr>,
      result_total = 2000, result_last_id = ''cursor''\<rparr>"

definition accept_stocks :: "nat \<Rightarrow> stock_update list \<Rightarrow> (error + unit) \<times> nat" where
  "accept_stocks s stocks = (Inr (), s)"

definition accept_prices :: "nat \<Rightarrow> price_update list \<Rightarrow> (error + unit) \<times> nat" where
  "accept_prices s prices = (Inr (), s)"

definition serve_archive :: "nat \<Rightarrow> (error + string) \<times> nat" where
  "serve_archive s = (Inr ''zip'', s)"

definition one_sheet :: "string \<Rightarrow> error + (string \<times> string) list" where
  "one_sheet content = Inr [(''ostatki.xls'', ''sheet'')]"

definition parse_example :: "string \<Rightarrow> error + watch list" where
  "parse_example sheet = Inr example_rows"

definition serve_thousand :: "nat \<Rightarrow> string \<Rightarrow> (error + page) \<times> nat" where
  "serve_thousand s last_id = (Inr thousand_page, Suc s)"

definition paging_services :: "nat services" where
  "paging_services =
     \<lparr>product_list_endpoint = serve_thousand,
      import_stocks_endpoint = accept_stocks,
      import_prices_endpoint = accept_prices,
      ostatki_endpoint = serve_archive,
      zip_members = one_sheet,
      read_excel = parse_example\<rparr>"

definition fresh_world :: "nat world" where
  "fresh_world = \<lparr>server = 0, files = Map.empty, stocks_sent = [], prices_sent = [], printed = []\<rparr>"

text \<open>
  A marketplace with the two offers of the end-to-end example on one page, and a vendor
  whose spreadsheet cannot be parsed.
\<close>

definition two_offers_page :: page where
  "two_offers_page =
     \<lparr>result_items = [\<lparr>product_offer_id = ''A''\<rparr>, \<lparr>product_offer_id = ''B''\<rparr>],
      result_total = 2, result_last_id = ''''\<rparr>"

definition serve_two_offers :: "nat \<Rightarrow> string \<Rightarrow> (error + page) \<times> nat" where
  "serve_two_offers s last_id = (Inr two_offers_page, Suc s)"

definition shop_services :: "nat services" where
  "shop_services =
     \<lparr>product_list_endpoint = serve_two_offers,
      import_stocks_endpoint = accept_stocks,
      import_prices_endpoint = accept_prices,
      ostatki_endpoint = serve_archive,
      zip_members = one_sheet,
      read_excel = parse_example\<rparr>"

definition unreadable_sheet :: "string \<Rightarrow> error + watch list" where
  "unreadable_sheet sheet = Inl ParseError"

definition unreadable_services :: "nat services" where
  "unreadable_services =
     \<lparr>product_list_endpoint = serve_two_offers,
      import_stocks_endpoint = accept_stocks,
      import_prices_endpoint = accept_prices,
      ostatki_endpoint = serve_archive,
      zip_members = one_sheet,
      read_excel = unreadable_sheet\<rparr>"










section \<open>Properties of \<^verbatim>\<open>divide\<close>\<close>

lemma py_slice_chunk:
  "0 \<le> i \<Longrightarrow> 0 < n \<Longrightarrow> py_slice lst i (i + n) = take (nat n) (drop (nat i) lst)"
proof -
  assume i: "0 \<le> i" and n: "0 < n"
  have lo: "slice_bound (length lst) i = min (nat i) (length lst)"
    using i by (simp add: slice_bound_def)
  have hi: "slice_bound (length lst) (i + n) = min (nat i + nat n) (length lst)"
    using i n by (simp add: slice_bound_def nat_add_distrib)
  show ?thesis
  proof (cases "nat i \<le> length lst")
    case True
    then show ?thesis
      unfolding py_slice_def Let_def lo hi by (cases "nat i + nat n \<le> length lst") simp_all
  next
    case False
    then show ?thesis
      unfolding py_slice_def Let_def lo hi by simp
  qed
qed

lemma concat_range_up:
  "0 < n \<Longrightarrow> 0 \<le> i \<Longrightarrow>
   concat (map (\<lambda>k. py_slice lst k (k + n)) (range_up i (int (length lst)) n)) = drop (nat i) lst"
proof (induction i "int (length lst)" n rule: range_up.induct)
  case (1 i step)
  show ?case
  proof (cases "i < int (length lst)")
    case True
    have next_ok: "0 \<le> i + step" using 1 by simp
    have "concat (map (\<lambda>k. py_slice lst k (k + step)) (range_up i (int (length lst)) step))
          = py_slice lst i (i + step) @ drop (nat (i + step)) lst"
      using 1 True next_ok by (subst range_up.simps) simp
    also have "\<dots> = take (nat step) (drop (nat i) lst) @ drop (nat step) (drop (nat i) lst)"
      using 1 by (simp add: py_slice_chunk nat_add_distrib add.commute)
    finally show ?thesis by (simp only: append_take_drop_id)
  next
    case False
    then show ?thesis by (subst range_up.simps) simp
  qed
qed

lemma range_up_bounds:
  "k \<in> set (range_up i stop step) \<Longrightarrow> i \<le> k \<and> k < stop"
proof (induction i stop step rule: range_up.induct)
  case (1 i stop step)
  from "1.prems" have cond: "0 < step \<and> i < stop"
    by (subst (asm) range_up.simps) (auto split: if_splits)
  from "1.prems" cond have "k = i \<or> k \<in> set (range_up (i + step) stop step)"
    by (subst (asm) range_up.simps) simp
  then show ?case
  proof
    assume "k = i" with cond show ?thesis by simp
  next
    assume "k \<in> set (range_up (i + step) stop step)"
    with "1.IH" cond have "i + step \<le> k \<and> k < stop" by simp
    with cond show ?thesis by simp
  qed
qed

lemma butlast_range_up:
  "k \<in> set (butlast (range_up i stop step)) \<Longrightarrow> k + step < stop"
proof (induction i stop step rule: range_up.induct)
  case (1 i stop step)
  from "1.prems" have cond: "0 < step \<and> i < stop"
    by (subst (asm) range_up.simps) (auto split: if_splits)
  show ?case
  proof (cases "range_up (i + step) stop step = []")
    case True
    with "1.prems" cond show ?thesis
      by (subst (asm) range_up.simps) simp
  next
    case False
    with "1.prems" cond have "k = i \<or> k \<in> set (butlast (range_up (i + step) stop step))"
      by (subst (asm) range_up.simps) simp
    then show ?thesis
    proof
      assume "k = i"
      from False have "i + step < stop"
        by (subst (asm) range_up.simps) (auto split: if_splits)
      with \<open>k = i\<close> show ?thesis by simp
    next
      assume "k \<in> set (butlast (range_up (i + step) stop step))"
      with "1.IH" cond show ?thesis by simp
    qed
  qed
qed

lemma divide_pos:
  "0 < n \<Longrightarrow> divide lst n = Inr (map (\<lambda>i. py_slice lst i (i + n)) (range_up 0 (int (length lst)) n))"
  by (simp add: divide_def py_range_def)

lemma divide_concat:
  assumes "0 < n" and "divide lst n = Inr chunks"
  shows "concat chunks = lst"
  using assms concat_range_up [of n 0 lst] by (simp add: divide_pos)

lemma divide_chunk_length:
  assumes "0 < n" and "divide lst n = Inr chunks" and "c \<in> set chunks"
  shows "c \<noteq> [] \<and> int (length c) \<le> n"
proof -
  from assms obtain k where k: "k \<in> set (range_up 0 (int (length lst)) n)"
    and c: "c = py_slice lst k (k + n)"
    by (auto simp: divide_pos)
  from range_up_bounds [OF k] have "0 \<le> k" "k < int (length lst)" by simp_all
  with assms(1) c show ?thesis
    by (simp add: py_slice_chunk) linarith
qed

lemma divide_butlast_length:
  assumes "0 < n" and "divide lst n = Inr chunks" and "c \<in> set (butlast chunks)"
  shows "int (length c) = n"
proof -
  from assms obtain k where k: "k \<in> set (butlast (range_up 0 (int (length lst)) n))"
    and c: "c = py_slice lst k (k + n)"
    by (auto simp: divide_pos map_butlast [symmetric])
  from k have "k \<in> set (range_up 0 (int (length lst)) n)" by (rule in_set_butlastD)
  from range_up_bounds [OF this] have "0 \<le> k" by simp
  moreover from butlast_range_up [OF k] have "k + n < int (length lst)" .
  ultimately show ?thesis using assms(1) c
    by (simp add: py_slice_chunk)
qed

lemma divide_example: "divide [1, 2, 3, 4, 5 :: int] 2 = Inr [[1, 2], [3, 4], [5]]"
  by (simp add: divide_def py_range_def range_up.simps py_slice_def slice_bound_def)

lemma divide_Nil: "0 < n \<Longrightarrow> divide [] n = Inr []"
  by (simp add: divide_pos range_up.simps)

text \<open>
  Claim C5. For every list \<open>lst\<close> and every size \<open>n \<ge> 1\<close>, \<open>divide lst n\<close> returns
  chunks whose concatenation is \<open>lst\<close>; each chunk is non-empty and has at most \<open>n\<close>
  elements, every chunk but the last has exactly \<open>n\<close>, the empty list gives no chunk, and
  \<open>divide [1,2,3,4,5] 2\<close> is \<open>[[1,2],[3,4],[5]]\<close>.
\<close>

theorem divide_chunks:
  assumes "1 \<le> n"
  shows "(\<exists>chunks. divide lst n = Inr chunks
            \<and> concat chunks = lst
            \<and> (\<forall>c \<in> set chunks. c \<noteq> [] \<and> int (length c) \<le> n)
            \<and> (\<forall>c \<in> set (butlast chunks). int (length c) = n))
         \<and> divide ([] :: 'a list) n = Inr []
         \<and> divide [1, 2, 3, 4, 5 :: int] 2 = Inr [[1, 2], [3, 4], [5]]"
proof -
  from assms have n: "0 < n" by simp
  obtain chunks where d: "divide lst n = Inr chunks"
    using n by (simp add: divide_pos)
  have "concat chunks = lst"
    using n d by (rule divide_concat)
  moreover have "\<forall>c \<in> set chunks. c \<noteq> [] \<and> int (length c) \<le> n"
    using divide_chunk_length [OF n d] by blast
  moreover have "\<forall>c \<in> set (butlast chunks). int (length c) = n"
    using divide_butlast_length [OF n d] by blast
  ultimately have first: "\<exists>chunks. divide lst n = Inr chunks
            \<and> concat chunks = lst
            \<and> (\<forall>c \<in> set chunks. c \<noteq> [] \<and> int (length c) \<le> n)
            \<and> (\<forall>c \<in> set (butlast chunks). int (length c) = n)"
    using d by blast
  show ?thesis
    using first divide_Nil [OF n] divide_example by blast
qed

theorem divide_chunks_witness:
  "(1::int) \<le> 2
   \<and> (\<exists>chunks. divide ''abcde'' 2 = Inr chunks
         \<and> concat chunks = ''abcde''
         \<and> (\<forall>c \<in> set chunks. c \<noteq> [] \<and> int (length c) \<le> 2)
         \<and> (\<forall>c \<in> set (butlast chunks). int (length c) = 2))
   \<and> divide ''abcde'' 2 = Inr [''ab'', ''cd'', ''e'']"
proof -
  have h: "(1::int) \<le> 2" by simp
  have "divide ''abcde'' 2 = Inr [''ab'', ''cd'', ''e'']"
    by (simp add: divide_def py_range_def range_up.simps py_slice_def slice_bound_def)
  then show ?thesis
    using h divide_chunks [OF h, of "''abcde''"] by blast
qed

section \<open>Reading a quantity\<close>

lemma underscore_not_digit: "is_digit c \<Longrightarrow> c \<noteq> CHR ''_''"
  by (auto simp: is_digit_def)

lemma sign_not_digit: "is_digit c \<Longrightarrow> c \<noteq> CHR ''-'' \<and> c \<noteq> CHR ''+''"
  by (auto simp: is_digit_def)

lemma digit_not_space: "is_digit c \<Longrightarrow> \<not> is_space c"
  by (auto simp: is_digit_def is_space_def Let_def)

lemma int_digits_all:
  "list_all is_digit s \<Longrightarrow> int_digits acc s = Some (foldl (\<lambda>a c. 10 * a + digit_val c) acc s)"
  by (induction acc s rule: int_digits.induct) (auto simp: underscore_not_digit)

lemma strip_digits: "list_all is_digit s \<Longrightarrow> strip s = s"
proof (cases "s = []")
  case True
  then show ?thesis by (simp add: strip_def)
next
  case False
  assume digits: "list_all is_digit s"
  have "is_digit (hd s)"
    using digits False by (cases s) simp_all
  then have leading: "dropWhile is_space s = s"
    using False by (cases s) (simp_all add: digit_not_space)
  have "last s \<in> set s"
    using False by simp
  then have "is_digit (last s)"
    using digits by (simp add: list_all_iff)
  then have "\<not> is_space (hd (rev s))"
    using False by (simp add: hd_rev digit_not_space)
  moreover have "rev s \<noteq> []"
    using False by simp
  ultimately have trailing: "dropWhile is_space (rev s) = rev s"
    by (cases "rev s") simp_all
  show ?thesis
    by (simp add: strip_def leading trailing)
qed

lemma digit_below_128: "is_digit c \<Longrightarrow> (of_char c :: nat) < 128"
  by (simp add: is_digit_def)

lemma utf8_decode_ascii: "list_all (\<lambda>b. b < 128) bs \<Longrightarrow> utf8_decode bs = Some bs"
  by (induction bs rule: utf8_decode.induct) simp_all

text \<open>On pure ASCII text \<open>int_of_str\<close> is the parser itself.\<close>

lemma int_of_str_ascii:
  assumes "list_all (\<lambda>c. (of_char c :: nat) < 128) s"
  shows "int_of_str s = int_of_ascii s"
proof -
  from assms have ascii: "list_all (\<lambda>b. b < 128) (map of_char s :: nat list)"
    by (simp add: list_all_iff)
  then have "utf8_decode (map of_char s) = Some (map of_char s)"
    by (rule utf8_decode_ascii)
  moreover have "transform_decimal_and_space (map of_char s) = map of_char s"
    using ascii by (simp add: transform_decimal_and_space_def)
  moreover have "map char_of (map of_char s :: nat list) = s"
    by (simp add: comp_def)
  ultimately show ?thesis
    by (simp add: int_of_str_def)
qed

lemma int_of_ascii_numeric:
  assumes "numeric_text s"
  shows "int_of_ascii s =
           (if max_str_digits < length s then Inl ValueError else Inr (int (decimal s)))"
proof -
  from assms have ne: "s \<noteq> []" and digits: "list_all is_digit s"
    by (simp_all add: numeric_text_def)
  from ne digits have "is_digit (hd s)"
    by (cases s) simp_all
  then have sign: "hd s \<noteq> CHR ''-''" "hd s \<noteq> CHR ''+''"
    using sign_not_digit by blast+
  have all: "filter is_digit s = s"
    using digits by (simp add: list_all_iff)
  have unsigned: "(case s of c # cs \<Rightarrow> if c = CHR ''-'' then (True, cs)
                                     else if c = CHR ''+'' then (False, cs)
                                     else (False, s)
                         | [] \<Rightarrow> (False, s)) = (False, s)"
    using ne sign by (cases s) simp_all
  show ?thesis
    unfolding int_of_ascii_def Let_def strip_digits [OF digits] unsigned
    using ne by (simp add: int_digits_all [OF digits] decimal_def all)
qed

lemma int_of_str_numeric:
  assumes "numeric_text s"
  shows "int_of_str s =
           (if max_str_digits < length s then Inl ValueError else Inr (int (decimal s)))"
proof -
  from assms have "list_all (\<lambda>c. (of_char c :: nat) < 128) s"
    by (simp add: numeric_text_def list_all_iff digit_below_128)
  then show ?thesis
    using assms by (simp add: int_of_str_ascii int_of_ascii_numeric)
qed




lemma numeric_text_5: "numeric_text ''5'' \<and> decimal ''5'' = 5"
  by (simp add: numeric_text_def is_digit_def decimal_def digit_val_def)

text \<open>The stock of a quantity text, by the form of the text.\<close>

lemma stock_of_count_quantity:
  assumes "q = ''>10'' \<or> q = ''1'' \<or> (numeric_text q \<and> length q \<le> max_str_digits)"
  shows "stock_of_count (PStr q) =
           Inr (if q = ''>10'' then 100 else if q = ''1'' then 0 else int (decimal q))"
proof (cases "q = ''>10'' \<or> q = ''1''")
  case True
  then show ?thesis by (auto simp: stock_of_count_def)
next
  case False
  with assms have "numeric_text q" "length q \<le> max_str_digits" by auto
  with False show ?thesis
    by (simp add: stock_of_count_def int_of_str_numeric)
qed


section \<open>The first loop of \<^verbatim>\<open>create_stocks\<close>\<close>


lemma create_stocks_loop_subset:
  "create_stocks_loop rows acc ids = (r, ids') \<Longrightarrow> set ids' \<subseteq> set ids"
proof (induction rows arbitrary: acc ids)
  case Nil
  then show ?case by simp
next
  case (Cons w rows)
  show ?case
  proof (cases "py_str (Kod w) \<in> set ids")
    case False
    with Cons show ?thesis by simp
  next
    case True
    show ?thesis
    proof (cases "stock_of_count (Kolichestvo w)")
      case (Inl e)
      with True Cons.prems show ?thesis by simp
    next
      case (Inr n)
      with True Cons.prems
      have "create_stocks_loop rows (acc @ [\<lparr>offer_id = py_str (Kod w), stock = n\<rparr>])
              (remove1 (py_str (Kod w)) ids) = (r, ids')"
        by simp
      from Cons.IH [OF this] show ?thesis
        using set_remove1_subset by fast
    qed
  qed
qed

text \<open>With distinct offer ids, no code of a row is left in the list.\<close>

lemma create_stocks_loop_consumes:
  "distinct ids \<Longrightarrow> create_stocks_loop rows acc ids = (Inr st, ids') \<Longrightarrow>
   \<forall>w \<in> set rows. py_str (Kod w) \<notin> set ids'"
proof (induction rows arbitrary: acc ids)
  case Nil
  then show ?case by simp
next
  case (Cons w rows)
  show ?case
  proof (cases "py_str (Kod w) \<in> set ids")
    case False
    with Cons.prems have run: "create_stocks_loop rows acc ids = (Inr st, ids')"
      by simp
    from Cons.IH [OF Cons.prems(1) run] create_stocks_loop_subset [OF run] False
    show ?thesis by auto
  next
    case True
    with Cons.prems obtain n where
      run: "create_stocks_loop rows (acc @ [\<lparr>offer_id = py_str (Kod w), stock = n\<rparr>])
              (remove1 (py_str (Kod w)) ids) = (Inr st, ids')"
      by (auto split: sum.splits)
    have d: "distinct (remove1 (py_str (Kod w)) ids)"
      using Cons.prems(1) by simp
    have "py_str (Kod w) \<notin> set (remove1 (py_str (Kod w)) ids)"
      using Cons.prems(1) by simp
    with create_stocks_loop_subset [OF run] have "py_str (Kod w) \<notin> set ids'"
      by auto
    with Cons.IH [OF d run] show ?thesis by simp
  qed
qed





section \<open>\<^verbatim>\<open>create_stocks\<close>\<close>





lemma stock_of_count_5: "stock_of_count (PStr ''5'') = Inr 5"
  using stock_of_count_quantity [of "''5''"] numeric_text_5
  by (simp add: max_str_digits_def)






text \<open>
  Claim C2, on the example of the docstring: after the call the caller's list no longer
  holds the offer id that matched a row. \<open>create_stocks\<close> works on the caller's list, not
  on a copy.
\<close>

theorem create_stocks_changes_offer_ids:
  "create_stocks docstring_rows [''12345'', ''67890''] =
     (Inr [\<lparr>offer_id = ''12345'', stock = 5\<rparr>, \<lparr>offer_id = ''67890'', stock = 0\<rparr>], [''67890''])"
  by (simp add: create_stocks_def docstring_rows_def stock_of_count_5)




section \<open>\<^verbatim>\<open>price_conversion\<close>\<close>

lemma split_dot_head: "\<exists>pieces. split_dot s = takeWhile (\<lambda>c. c \<noteq> CHR ''.'') s # pieces"
  by (induction s) auto

lemma of_char_digit:
  "(of_char c :: nat) = of_char d \<Longrightarrow> c = d"
  by simp

lemma is_digit_iff: "is_digit c \<longleftrightarrow> c \<in> set ''0123456789''"
proof
  assume "c \<in> set ''0123456789''"
  then show "is_digit c" by (auto simp: is_digit_def)
next
  assume d: "is_digit c"
  define k where "k = (of_char c :: nat)"
  from d have "48 \<le> k \<and> k \<le> 57" by (simp add: is_digit_def k_def)
  then have "k = 48 \<or> k = 49 \<or> k = 50 \<or> k = 51 \<or> k = 52 \<or> k = 53 \<or> k = 54 \<or> k = 55
               \<or> k = 56 \<or> k = 57" by arith
  then have "k = of_char CHR ''0'' \<or> k = of_char CHR ''1'' \<or> k = of_char CHR ''2''
      \<or> k = of_char CHR ''3'' \<or> k = of_char CHR ''4'' \<or> k = of_char CHR ''5''
      \<or> k = of_char CHR ''6'' \<or> k = of_char CHR ''7'' \<or> k = of_char CHR ''8''
      \<or> k = of_char CHR ''9''" by simp
  then have "c = CHR ''0'' \<or> c = CHR ''1'' \<or> c = CHR ''2'' \<or> c = CHR ''3'' \<or> c = CHR ''4''
      \<or> c = CHR ''5'' \<or> c = CHR ''6'' \<or> c = CHR ''7'' \<or> c = CHR ''8'' \<or> c = CHR ''9''"
    unfolding k_def by (blast dest: of_char_digit)
  then show "c \<in> set ''0123456789''" by auto
qed

lemma price_conversion_text:
  "price_conversion (PStr t) = Inr (filter is_digit (takeWhile (\<lambda>c. c \<noteq> CHR ''.'') t))"
proof -
  obtain pieces where "split_dot t = takeWhile (\<lambda>c. c \<noteq> CHR ''.'') t # pieces"
    using split_dot_head by blast
  then show ?thesis
    by (simp add: price_conversion_def re_sub_non_digits_def)
qed

text \<open>
  Claim C4. For every string \<open>s\<close>, \<open>price_conversion\<close> returns the part of \<open>s\<close> before its
  first full stop with every character other than the digits 0 to 9 removed; the price of
  the docstring (whose Cyrillic letters are written as their UTF-8 bytes) gives
  \<^verbatim>\<open>"5990"\<close>, and \<^verbatim>\<open>"100.00"\<close> gives \<^verbatim>\<open>"100"\<close>.
\<close>

theorem price_conversion_digits:
  "price_conversion (PStr s) =
     Inr (filter (\<lambda>c. c \<in> set ''0123456789'') (takeWhile (\<lambda>c. c \<noteq> CHR ''.'') s))
   \<and> price_conversion (PStr (''5'990.00 '' @ [CHR 0xD1, CHR 0x80, CHR 0xD1, CHR 0x83, CHR 0xD0, CHR 0xB1] @ ''.''))
       = Inr ''5990''
   \<and> price_conversion (PStr ''100.00'') = Inr ''100''"
proof -
  have "filter is_digit = filter (\<lambda>c. c \<in> set ''0123456789'')"
    using is_digit_iff by presburger
  then have "price_conversion (PStr s) =
     Inr (filter (\<lambda>c. c \<in> set ''0123456789'') (takeWhile (\<lambda>c. c \<noteq> CHR ''.'') s))"
    by (simp only: price_conversion_text)
  moreover
  have "price_conversion (PStr (''5'990.00 '' @ [CHR 0xD1, CHR 0x80, CHR 0xD1, CHR 0x83, CHR 0xD0, CHR 0xB1] @ ''.''))
          = Inr ''5990''"
    by (simp add: price_conversion_def re_sub_non_digits_def is_digit_def)
  moreover have "price_conversion (PStr ''100.00'') = Inr ''100''"
    by (simp add: price_conversion_def re_sub_non_digits_def is_digit_def)
  ultimately show ?thesis by blast
qed

theorem price_conversion_digits_witness:
  "price_conversion (PStr ''1'234.00 x'') = Inr ''1234''"
  using price_conversion_digits [of "''1'234.00 x''"] by simp

section \<open>\<^verbatim>\<open>create_prices\<close>\<close>



lemma create_prices_loop_shape:
  "create_prices_loop rows acc ids = Inr ps \<Longrightarrow>
   \<exists>m. ps = acc @ m
     \<and> length m = length (filter (\<lambda>w. py_str (Kod w) \<in> set ids) rows)
     \<and> (\<forall>p \<in> set m. \<exists>w \<in> set rows. py_str (Kod w) \<in> set ids
            \<and> price_conversion (Tsena w) = Inr (price p)
            \<and> p = \<lparr>auto_action_enabled = ''UNKNOWN'', currency_code = ''RUB'',
                    price_offer_id = py_str (Kod w), old_price = ''0'', price = price p\<rparr>)"
proof (induction rows arbitrary: acc)
  case Nil
  then show ?case by simp
next
  case (Cons w rows)
  show ?case
  proof (cases "py_str (Kod w) \<in> set ids")
    case False
    with Cons.prems have "create_prices_loop rows acc ids = Inr ps" by simp
    from Cons.IH [OF this] False show ?thesis by auto
  next
    case True
    with Cons.prems obtain p where p: "price_conversion (Tsena w) = Inr p"
      and run: "create_prices_loop rows (acc @ [\<lparr>auto_action_enabled = ''UNKNOWN'', currency_code = ''RUB'',
                            price_offer_id = py_str (Kod w), old_price = ''0'', price = p\<rparr>]) ids = Inr ps"
      by (auto split: sum.splits)
    let ?e = "\<lparr>auto_action_enabled = ''UNKNOWN'', currency_code = ''RUB'',
                            price_offer_id = py_str (Kod w), old_price = ''0'', price = p\<rparr>"
    from Cons.IH [OF run] obtain m where m: "ps = (acc @ [?e]) @ m"
      and len: "length m = length (filter (\<lambda>w. py_str (Kod w) \<in> set ids) rows)"
      and all: "\<forall>p \<in> set m. \<exists>w \<in> set rows. py_str (Kod w) \<in> set ids
            \<and> price_conversion (Tsena w) = Inr (price p)
            \<and> p = \<lparr>auto_action_enabled = ''UNKNOWN'', currency_code = ''RUB'',
                    price_offer_id = py_str (Kod w), old_price = ''0'', price = price p\<rparr>"
      by blast
    have "ps = acc @ (?e # m)" using m by simp
    moreover have "length (?e # m) = length (filter (\<lambda>w. py_str (Kod w) \<in> set ids) (w # rows))"
      using len True by simp
    moreover have "\<forall>p \<in> set (?e # m). \<exists>w' \<in> set (w # rows). py_str (Kod w') \<in> set ids
            \<and> price_conversion (Tsena w') = Inr (price p)
            \<and> p = \<lparr>auto_action_enabled = ''UNKNOWN'', currency_code = ''RUB'',
                    price_offer_id = py_str (Kod w'), old_price = ''0'', price = price p\<rparr>"
      using all True p by auto
    ultimately show ?thesis by blast
  qed
qed

lemma create_prices_loop_total:
  "\<forall>w \<in> set rows. py_str (Kod w) \<in> set ids \<longrightarrow> (\<exists>s. Tsena w = PStr s) \<Longrightarrow>
   \<exists>ps. create_prices_loop rows acc ids = Inr ps"
proof (induction rows arbitrary: acc)
  case Nil
  then show ?case by simp
next
  case (Cons w rows)
  show ?case
  proof (cases "py_str (Kod w) \<in> set ids")
    case False
    with Cons show ?thesis by simp
  next
    case True
    with Cons.prems obtain s where "Tsena w = PStr s" by auto
    then obtain p where "price_conversion (Tsena w) = Inr p"
      by (simp add: price_conversion_text)
    with Cons True show ?thesis by simp
  qed
qed

lemma matched_pairs:
  "length (filter (\<lambda>w. f w \<in> set ids) rows)
   \<le> length (filter (\<lambda>(w, x). f w = x) (List.product rows ids))"
proof (induction rows)
  case Nil
  then show ?case by simp
next
  case (Cons w rows)
  have "f w \<in> set ids \<Longrightarrow> 1 \<le> length (filter (\<lambda>(w, x). f w = x) (map (Pair w) ids))"
    by (induction ids) auto
  with Cons show ?case by auto
qed

text \<open>
  Claim C7. Whatever \<open>create_prices\<close> returns has at most as many entries as there are
  pairs of a row and an offer id equal to its code; every entry has the code of a row as
  its offer id, the fixed values of \<open>old_price\<close>, \<open>currency_code\<close> and
  \<open>auto_action_enabled\<close>, and the converted price of a row with that code. It does return
  when the price of every row whose code is an offer id is a string.
\<close>

theorem create_prices_entries:
  "(\<forall>prices. create_prices watch_remnants offer_ids = Inr prices \<longrightarrow>
      length prices
        \<le> length (filter (\<lambda>(w, x). py_str (Kod w) = x) (List.product watch_remnants offer_ids))
      \<and> (\<forall>p \<in> set prices.
            price_offer_id p \<in> set (map (\<lambda>w. py_str (Kod w)) watch_remnants)
            \<and> old_price p = ''0'' \<and> currency_code p = ''RUB'' \<and> auto_action_enabled p = ''UNKNOWN''
            \<and> (\<exists>w \<in> set watch_remnants. py_str (Kod w) = price_offer_id p
                   \<and> py_str (Kod w) \<in> set offer_ids
                   \<and> price_conversion (Tsena w) = Inr (price p))))
   \<and> ((\<forall>w \<in> set watch_remnants. py_str (Kod w) \<in> set offer_ids \<longrightarrow> (\<exists>s. Tsena w = PStr s)) \<longrightarrow>
        (\<exists>prices. create_prices watch_remnants offer_ids = Inr prices))"
proof (intro conjI allI impI)
  fix prices
  assume run: "create_prices watch_remnants offer_ids = Inr prices"
  then have "create_prices_loop watch_remnants [] offer_ids = Inr prices"
    by (simp add: create_prices_def)
  from create_prices_loop_shape [OF this]
  have len: "length prices = length (filter (\<lambda>w. py_str (Kod w) \<in> set offer_ids) watch_remnants)"
    and all: "\<forall>p \<in> set prices. \<exists>w \<in> set watch_remnants. py_str (Kod w) \<in> set offer_ids
            \<and> price_conversion (Tsena w) = Inr (price p)
            \<and> p = \<lparr>auto_action_enabled = ''UNKNOWN'', currency_code = ''RUB'',
                    price_offer_id = py_str (Kod w), old_price = ''0'', price = price p\<rparr>"
    by auto
  from len matched_pairs [of "\<lambda>w. py_str (Kod w)" offer_ids watch_remnants]
  show "length prices
        \<le> length (filter (\<lambda>(w, x). py_str (Kod w) = x) (List.product watch_remnants offer_ids))"
    by simp
  show "\<forall>p \<in> set prices.
            price_offer_id p \<in> set (map (\<lambda>w. py_str (Kod w)) watch_remnants)
            \<and> old_price p = ''0'' \<and> currency_code p = ''RUB'' \<and> auto_action_enabled p = ''UNKNOWN''
            \<and> (\<exists>w \<in> set watch_remnants. py_str (Kod w) = price_offer_id p
                   \<and> py_str (Kod w) \<in> set offer_ids
                   \<and> price_conversion (Tsena w) = Inr (price p))"
  proof
    fix p
    assume "p \<in> set prices"
    with all obtain w where w: "w \<in> set watch_remnants" "py_str (Kod w) \<in> set offer_ids"
      "price_conversion (Tsena w) = Inr (price p)"
      and p: "p = \<lparr>auto_action_enabled = ''UNKNOWN'', currency_code = ''RUB'',
                    price_offer_id = py_str (Kod w), old_price = ''0'', price = price p\<rparr>"
      by blast
    from p have fields: "price_offer_id p = py_str (Kod w)" "old_price p = ''0''"
      "currency_code p = ''RUB''" "auto_action_enabled p = ''UNKNOWN''"
      by (metis price_update.select_convs)+
    with w show "price_offer_id p \<in> set (map (\<lambda>w. py_str (Kod w)) watch_remnants)
            \<and> old_price p = ''0'' \<and> currency_code p = ''RUB'' \<and> auto_action_enabled p = ''UNKNOWN''
            \<and> (\<exists>w \<in> set watch_remnants. py_str (Kod w) = price_offer_id p
                   \<and> py_str (Kod w) \<in> set offer_ids
                   \<and> price_conversion (Tsena w) = Inr (price p))"
      by auto
  qed
next
  assume "\<forall>w \<in> set watch_remnants. py_str (Kod w) \<in> set offer_ids \<longrightarrow> (\<exists>s. Tsena w = PStr s)"
  from create_prices_loop_total [OF this, of "[]"]
  show "\<exists>prices. create_prices watch_remnants offer_ids = Inr prices"
    by (simp add: create_prices_def)
qed

theorem create_prices_entries_witness:
  "create_prices example_rows [''A'', ''B''] =
     Inr [\<lparr>auto_action_enabled = ''UNKNOWN'', currency_code = ''RUB'', price_offer_id = ''A'',
           old_price = ''0'', price = ''1234''\<rparr>]
   \<and> length [\<lparr>auto_action_enabled = ''UNKNOWN'', currency_code = ''RUB'', price_offer_id = ''A'',
           old_price = ''0'', price = ''1234''\<rparr>]
       \<le> length (filter (\<lambda>(w, x). py_str (Kod w) = x) (List.product example_rows [''A'', ''B'']))"
proof -
  have run: "create_prices example_rows [''A'', ''B''] =
     Inr [\<lparr>auto_action_enabled = ''UNKNOWN'', currency_code = ''RUB'', price_offer_id = ''A'',
           old_price = ''0'', price = ''1234''\<rparr>]"
    by (simp add: create_prices_def example_rows_def price_conversion_def
          re_sub_non_digits_def is_digit_def)
  with create_prices_entries [of example_rows "[''A'', ''B'']"] show ?thesis
    by simp
qed

section \<open>The pagination loop\<close>

lemma pages_after_length:
  "pages_after sv k lid w = Some (ps, w') \<Longrightarrow> length ps = k"
  by (induction k arbitrary: lid w ps) (auto split: prod.splits sum.splits option.splits)

lemma count_matches_Cons:
  "count_matches acc (p # qs) =
     (if qs = [] then result_total p = int (length (acc @ result_items p))
      else count_matches (acc @ result_items p) qs)"
  by (simp add: count_matches_def)

lemma pages_after_take:
  "pages_after sv k lid w = Some (ps, w') \<Longrightarrow> j \<le> k \<Longrightarrow>
   \<exists>w''. pages_after sv j lid w = Some (take j ps, w'')"
proof (induction k arbitrary: lid w ps j)
  case 0
  then show ?case by simp
next
  case (Suc k)
  show ?case
  proof (cases j)
    case 0
    then show ?thesis by simp
  next
    case (Suc i)
    from Suc.prems(1) obtain p w1 qs where
      req: "get_product_list sv lid w = (Inr p, w1)" and
      rest: "pages_after sv k (result_last_id p) w1 = Some (qs, w')" and
      ps: "ps = p # qs"
      by (auto split: prod.splits sum.splits option.splits)
    from Suc.prems(2) \<open>j = Suc i\<close> have "i \<le> k" by simp
    from Suc.IH [OF rest this] obtain w'' where
      "pages_after sv i (result_last_id p) w1 = Some (take i qs, w'')"
      by blast
    with req ps \<open>j = Suc i\<close> show ?thesis by simp
  qed
qed

lemma loop_stops_at_first_match:
  "pages_after sv k lid w = Some (ps, w') \<Longrightarrow> count_matches acc ps \<Longrightarrow>
   (\<forall>j. 0 < j \<and> j < k \<longrightarrow> \<not> count_matches acc (take j ps)) \<Longrightarrow>
   get_offer_ids_loop sv lid acc w = Some (Inr (acc @ concat (map result_items ps)), w')"
proof (induction k arbitrary: lid w ps acc)
  case 0
  then show ?case by (simp add: count_matches_def)
next
  case (Suc k)
  from Suc.prems(1) obtain p w1 qs where
    req: "get_product_list sv lid w = (Inr p, w1)" and
    rest: "pages_after sv k (result_last_id p) w1 = Some (qs, w')" and
    ps: "ps = p # qs"
    by (auto split: prod.splits sum.splits option.splits)
  have len: "length qs = k" using rest by (rule pages_after_length)
  show ?case
  proof (cases k)
    case 0
    with len have "qs = []" by simp
    with rest 0 have "w' = w1" by simp
    from Suc.prems(2) ps \<open>qs = []\<close>
    have "result_total p = int (length (acc @ result_items p))"
      by (simp add: count_matches_Cons)
    with req ps \<open>qs = []\<close> \<open>w' = w1\<close> show ?thesis
      by (subst get_offer_ids_loop.simps) simp
  next
    case (Suc i)
    with len have ne: "qs \<noteq> []" by auto
    have "0 < (1::nat) \<and> 1 < Suc k" using Suc by simp
    with Suc.prems(3) have "\<not> count_matches acc (take 1 ps)" by blast
    with ps have differs: "result_total p \<noteq> int (length (acc @ result_items p))"
      by (simp add: count_matches_Cons)
    have m: "count_matches (acc @ result_items p) qs"
      using Suc.prems(2) ps ne by (simp add: count_matches_Cons)
    have least: "\<forall>j. 0 < j \<and> j < k \<longrightarrow> \<not> count_matches (acc @ result_items p) (take j qs)"
    proof (intro allI impI)
      fix j
      assume j: "0 < j \<and> j < k"
      then have "0 < Suc j \<and> Suc j < Suc k" by simp
      with Suc.prems(3) have "\<not> count_matches acc (take (Suc j) ps)" by blast
      moreover have "take j qs \<noteq> []" using j len by auto
      ultimately show "\<not> count_matches (acc @ result_items p) (take j qs)"
        using ps by (simp add: count_matches_Cons)
    qed
    from Suc.IH [OF rest m least]
    have "get_offer_ids_loop sv (result_last_id p) (acc @ result_items p) w1 =
            Some (Inr ((acc @ result_items p) @ concat (map result_items qs)), w')" .
    with req differs ps show ?thesis
      by (subst get_offer_ids_loop.simps) simp
  qed
qed

lemma loop_returns_at_match:
  "get_offer_ids_loop sv lid acc w = Some y \<Longrightarrow>
   \<forall>r w'. y = (Inr r, w') \<longrightarrow>
     (\<exists>k ps. pages_after sv k lid w = Some (ps, w') \<and> count_matches acc ps
        \<and> r = acc @ concat (map result_items ps)
        \<and> (\<forall>j. 0 < j \<and> j < k \<longrightarrow> \<not> count_matches acc (take j ps)))"
proof (induction rule: get_offer_ids_loop.raw_induct [rotated 1, consumes 1, case_names step])
  case (step loop sv lid acc w y)
  show ?case
  proof (intro allI impI)
    fix r w'
    assume y: "y = (Inr r, w')"
    with step(2) obtain p w1 where req: "get_product_list sv lid w = (Inr p, w1)"
      by (auto split: prod.splits sum.splits)
    show "\<exists>k ps. pages_after sv k lid w = Some (ps, w') \<and> count_matches acc ps
        \<and> r = acc @ concat (map result_items ps)
        \<and> (\<forall>j. 0 < j \<and> j < k \<longrightarrow> \<not> count_matches acc (take j ps))"
    proof (cases "result_total p = int (length (acc @ result_items p))")
      case True
      with step(2) req y have r: "r = acc @ result_items p" and w: "w' = w1"
        by (simp_all add: Let_def)
      have "pages_after sv (Suc 0) lid w = Some ([p], w')"
        using req w by simp
      moreover have "count_matches acc [p]"
        using True by (simp add: count_matches_Cons)
      moreover have "r = acc @ concat (map result_items [p])"
        using r by simp
      moreover have "\<forall>j. 0 < j \<and> j < Suc 0 \<longrightarrow> \<not> count_matches acc (take j [p])"
        by simp
      ultimately show ?thesis by blast
    next
      case False
      with step(2) req y
      have "loop sv (result_last_id p) (acc @ result_items p) w1 = Some (Inr r, w')"
        by (simp add: Let_def)
      from step(1) [OF this] obtain k qs where
        rest: "pages_after sv k (result_last_id p) w1 = Some (qs, w')" and
        m: "count_matches (acc @ result_items p) qs" and
        r: "r = (acc @ result_items p) @ concat (map result_items qs)" and
        least: "\<forall>j. 0 < j \<and> j < k \<longrightarrow> \<not> count_matches (acc @ result_items p) (take j qs)"
        by blast
      from m have ne: "qs \<noteq> []" by (simp add: count_matches_def)
      have len: "length qs = k" using rest by (rule pages_after_length)
      have "pages_after sv (Suc k) lid w = Some (p # qs, w')"
        using req rest by simp
      moreover have "count_matches acc (p # qs)"
        using m ne by (simp add: count_matches_Cons)
      moreover have "r = acc @ concat (map result_items (p # qs))"
        using r by simp
      moreover have "\<forall>j. 0 < j \<and> j < Suc k \<longrightarrow> \<not> count_matches acc (take j (p # qs))"
      proof (intro allI impI)
        fix j
        assume j: "0 < j \<and> j < Suc k"
        then obtain i where i: "j = Suc i" by (cases j) auto
        show "\<not> count_matches acc (take j (p # qs))"
        proof (cases i)
          case 0
          with i False show ?thesis by (simp add: count_matches_Cons)
        next
          case (Suc n)
          with i j have "0 < i \<and> i < k" by simp
          with least have "\<not> count_matches (acc @ result_items p) (take i qs)" by blast
          moreover have "take i qs \<noteq> []" using Suc ne by (cases qs) auto
          ultimately show ?thesis using i by (simp add: count_matches_Cons)
        qed
      qed
      ultimately show ?thesis by blast
    qed
  qed
qed

lemma first_match:
  assumes "pages_after sv k lid w = Some (ps, w')" and "count_matches acc ps"
  shows "\<exists>j w''. pages_after sv j lid w = Some (take j ps, w'') \<and> count_matches acc (take j ps)
           \<and> (\<forall>i. 0 < i \<and> i < j \<longrightarrow> \<not> count_matches acc (take i (take j ps)))"
proof -
  define j where "j = (LEAST j. count_matches acc (take j ps))"
  have len: "length ps = k" using assms(1) by (rule pages_after_length)
  have "count_matches acc (take k ps)" using assms(2) len by simp
  then have mj: "count_matches acc (take j ps)"
    unfolding j_def by (rule LeastI)
  have "j \<le> k" unfolding j_def using \<open>count_matches acc (take k ps)\<close> by (rule Least_le)
  from pages_after_take [OF assms(1) this] obtain w'' where
    "pages_after sv j lid w = Some (take j ps, w'')" by blast
  moreover have "\<forall>i. 0 < i \<and> i < j \<longrightarrow> \<not> count_matches acc (take i (take j ps))"
  proof (intro allI impI)
    fix i assume i: "0 < i \<and> i < j"
    then have "\<not> count_matches acc (take i ps)"
      unfolding j_def using not_less_Least by blast
    with i show "\<not> count_matches acc (take i (take j ps))" by (simp add: min_def)
  qed
  ultimately show ?thesis using mj by blast
qed

text \<open>
  Claim C8. The loop of \<open>get_offer_ids\<close> ends without an exception exactly when, after
  finitely many pages, none of them failed, the total reported by the last page is the
  number of items accumulated: if such a number of pages exists the function returns; it
  returns the items of the pages up to the first such point, with the world as it is
  there; and whenever it returns, it does so at such a point and at no earlier one. The
  number of items of a page plays no part, so pages of exactly 1000 items are covered.
\<close>

theorem get_offer_ids_terminates:
  "((\<exists>k ps w'. pages_after sv k '''' w = Some (ps, w') \<and> count_matches [] ps) \<longrightarrow>
      (\<exists>ids w'. get_offer_ids sv w = Some (Inr ids, w')))
   \<and> (\<forall>k ps w'. pages_after sv k '''' w = Some (ps, w') \<and> count_matches [] ps
          \<and> (\<forall>j. 0 < j \<and> j < k \<longrightarrow> \<not> count_matches [] (take j ps)) \<longrightarrow>
        get_offer_ids sv w = Some (Inr (map product_offer_id (concat (map result_items ps))), w'))
   \<and> (\<forall>ids w'. get_offer_ids sv w = Some (Inr ids, w') \<longrightarrow>
        (\<exists>k ps. pages_after sv k '''' w = Some (ps, w') \<and> count_matches [] ps
           \<and> ids = map product_offer_id (concat (map result_items ps))
           \<and> (\<forall>j. 0 < j \<and> j < k \<longrightarrow> \<not> count_matches [] (take j ps))))"
proof (intro conjI allI impI)
  assume "\<exists>k ps w'. pages_after sv k '''' w = Some (ps, w') \<and> count_matches [] ps"
  then obtain k ps w' where "pages_after sv k '''' w = Some (ps, w')" "count_matches [] ps"
    by blast
  from first_match [OF this] obtain j w'' where
    "pages_after sv j '''' w = Some (take j ps, w'')" "count_matches [] (take j ps)"
    "\<forall>i. 0 < i \<and> i < j \<longrightarrow> \<not> count_matches [] (take i (take j ps))"
    by blast
  from loop_stops_at_first_match [OF this]
  show "\<exists>ids w'. get_offer_ids sv w = Some (Inr ids, w')"
    by (simp add: get_offer_ids_def)
next
  fix k ps w'
  assume "pages_after sv k '''' w = Some (ps, w') \<and> count_matches [] ps
          \<and> (\<forall>j. 0 < j \<and> j < k \<longrightarrow> \<not> count_matches [] (take j ps))"
  then have a: "pages_after sv k '''' w = Some (ps, w')" and b: "count_matches [] ps"
    and c: "\<forall>j. 0 < j \<and> j < k \<longrightarrow> \<not> count_matches [] (take j ps)"
    by blast+
  have "get_offer_ids_loop sv '''' [] w = Some (Inr ([] @ concat (map result_items ps)), w')"
    using a b c by (rule loop_stops_at_first_match)
  then show "get_offer_ids sv w = Some (Inr (map product_offer_id (concat (map result_items ps))), w')"
    by (simp add: get_offer_ids_def)
next
  fix ids w'
  assume "get_offer_ids sv w = Some (Inr ids, w')"
  then obtain products where
    run: "get_offer_ids_loop sv '''' [] w = Some (Inr products, w')" and
    ids: "ids = map product_offer_id products"
    by (auto simp: get_offer_ids_def split: option.splits prod.splits sum.splits)
  from loop_returns_at_match [OF run] obtain k ps where
    "pages_after sv k '''' w = Some (ps, w')" "count_matches [] ps"
    "products = [] @ concat (map result_items ps)"
    "\<forall>j. 0 < j \<and> j < k \<longrightarrow> \<not> count_matches [] (take j ps)"
    by blast
  with ids show "\<exists>k ps. pages_after sv k '''' w = Some (ps, w') \<and> count_matches [] ps
           \<and> ids = map product_offer_id (concat (map result_items ps))
           \<and> (\<forall>j. 0 < j \<and> j < k \<longrightarrow> \<not> count_matches [] (take j ps))"
    by auto
qed

theorem get_offer_ids_terminates_witness:
  "pages_after paging_services 2 '''' fresh_world
     = Some ([thousand_page, thousand_page], fresh_world\<lparr>server := 2\<rparr>)
   \<and> count_matches [] [thousand_page, thousand_page]
   \<and> \<not> count_matches [] [thousand_page]
   \<and> get_offer_ids paging_services fresh_world
       = Some (Inr (replicate 2000 ''x''), fresh_world\<lparr>server := 2\<rparr>)"
proof -
  have two: "(2::nat) = Suc (Suc 0)" by simp
  have pages: "pages_after paging_services 2 '''' fresh_world
     = Some ([thousand_page, thousand_page], fresh_world\<lparr>server := 2\<rparr>)"
    unfolding two
    by (simp add: get_product_list_def paging_services_def serve_thousand_def fresh_world_def)
  have m: "count_matches [] [thousand_page, thousand_page]"
    by (simp add: count_matches_def thousand_page_def)
  have one: "\<not> count_matches [] [thousand_page]"
    by (simp add: count_matches_def thousand_page_def)
  have least: "\<forall>j. 0 < j \<and> j < 2 \<longrightarrow> \<not> count_matches [] (take j [thousand_page, thousand_page])"
  proof (intro allI impI)
    fix j :: nat
    assume "0 < j \<and> j < 2"
    then have "j = 1" by simp
    with one show "\<not> count_matches [] (take j [thousand_page, thousand_page])" by simp
  qed
  have items: "map product_offer_id (concat (map result_items [thousand_page, thousand_page]))
                 = replicate 2000 ''x''"
    by (simp add: thousand_page_def replicate_add [symmetric])
  from get_offer_ids_terminates [of paging_services fresh_world] pages m least
  have "get_offer_ids paging_services fresh_world
       = Some (Inr (map product_offer_id (concat (map result_items [thousand_page, thousand_page]))),
               fresh_world\<lparr>server := 2\<rparr>)"
    by blast
  with pages m one items show ?thesis by simp
qed

section \<open>\<^verbatim>\<open>download_stock\<close>\<close>

text \<open>
  Claim C6 fails as stated: when the spreadsheet cannot be parsed, \<open>download_stock\<close> ends
  with the exception and the extracted file is still in the working directory.
\<close>

theorem download_stock_leaves_file:
  "fst (download_stock unreadable_services fresh_world) = Inl ParseError
   \<and> files (snd (download_stock unreadable_services fresh_world)) ''ostatki.xls'' = Some ''sheet''"
  by (simp add: download_stock_def unreadable_services_def fresh_world_def serve_archive_def
        one_sheet_def unreadable_sheet_def extractall_def Let_def)

text \<open>
  Claim C6, amended. Once the archive has been downloaded and opened, \<open>download_stock\<close>
  removes the extracted spreadsheet exactly when the parsing succeeds; when the parsing
  raises, or the archive held no spreadsheet, the exception leaves the function with every
  extracted file still in the working directory.
\<close>

theorem download_stock_cleanup:
  assumes "ostatki_endpoint sv (server w) = (Inr content, s)"
    and "zip_members sv content = Inr members"
  shows "(\<forall>sheet rows. extractall members (files w) ''ostatki.xls'' = Some sheet
            \<and> read_excel sv sheet = Inr rows \<longrightarrow>
          download_stock sv w =
            (Inr rows, w\<lparr>server := s, files := (extractall members (files w))(''ostatki.xls'' := None)\<rparr>))
       \<and> (\<forall>sheet e. extractall members (files w) ''ostatki.xls'' = Some sheet
            \<and> read_excel sv sheet = Inl e \<longrightarrow>
          download_stock sv w = (Inl e, w\<lparr>server := s, files := extractall members (files w)\<rparr>))
       \<and> (extractall members (files w) ''ostatki.xls'' = None \<longrightarrow>
          download_stock sv w =
            (Inl FileNotFoundError, w\<lparr>server := s, files := extractall members (files w)\<rparr>))"
  using assms by (simp add: download_stock_def os_remove_def Let_def)

theorem download_stock_cleanup_witness:
  "ostatki_endpoint shop_services (server fresh_world) = (Inr ''zip'', 0)
   \<and> zip_members shop_services ''zip'' = Inr [(''ostatki.xls'', ''sheet'')]
   \<and> extractall [(''ostatki.xls'', ''sheet'')] (files fresh_world) ''ostatki.xls'' = Some ''sheet''
   \<and> read_excel shop_services ''sheet'' = Inr example_rows
   \<and> fst (download_stock shop_services fresh_world) = Inr example_rows
   \<and> files (snd (download_stock shop_services fresh_world)) ''ostatki.xls'' = None
   \<and> read_excel unreadable_services ''sheet'' = Inl ParseError
   \<and> files (snd (download_stock unreadable_services fresh_world)) ''ostatki.xls'' = Some ''sheet''"
proof -
  have a: "ostatki_endpoint shop_services (server fresh_world) = (Inr ''zip'', 0)"
    by (simp add: shop_services_def serve_archive_def fresh_world_def)
  have b: "zip_members shop_services ''zip'' = Inr [(''ostatki.xls'', ''sheet'')]"
    by (simp add: shop_services_def one_sheet_def)
  have c: "extractall [(''ostatki.xls'', ''sheet'')] (files fresh_world) ''ostatki.xls'' = Some ''sheet''"
    by (simp add: extractall_def)
  have d: "read_excel shop_services ''sheet'' = Inr example_rows"
    by (simp add: shop_services_def parse_example_def)
  have a': "ostatki_endpoint unreadable_services (server fresh_world) = (Inr ''zip'', 0)"
    by (simp add: unreadable_services_def serve_archive_def fresh_world_def)
  have b': "zip_members unreadable_services ''zip'' = Inr [(''ostatki.xls'', ''sheet'')]"
    by (simp add: unreadable_services_def one_sheet_def)
  have d': "read_excel unreadable_services ''sheet'' = Inl ParseError"
    by (simp add: unreadable_services_def unreadable_sheet_def)
  from download_stock_cleanup [OF a b] c d
  have ok: "download_stock shop_services fresh_world =
            (Inr example_rows, fresh_world\<lparr>server := 0,
               files := (extractall [(''ostatki.xls'', ''sheet'')] (files fresh_world))(''ostatki.xls'' := None)\<rparr>)"
    by blast
  from download_stock_cleanup [OF a' b'] c d'
  have bad: "download_stock unreadable_services fresh_world =
            (Inl ParseError, fresh_world\<lparr>server := 0,
               files := extractall [(''ostatki.xls'', ''sheet'')] (files fresh_world)\<rparr>)"
    by blast
  from a b c d d' show ?thesis
    by (simp add: ok bad)
qed

section \<open>What each step leaves unchanged\<close>

lemma get_product_list_frame:
  "get_product_list sv lid w = (r, w') \<Longrightarrow> w' = w\<lparr>server := server w'\<rparr>"
  by (auto simp: get_product_list_def split: prod.splits)

lemma get_offer_ids_loop_frame:
  "get_offer_ids_loop sv lid acc w = Some y \<Longrightarrow> snd y = w\<lparr>server := server (snd y)\<rparr>"
proof (induction rule: get_offer_ids_loop.raw_induct [rotated 1, consumes 1, case_names step])
  case (step loop sv lid acc w y)
  obtain r w1 where req: "get_product_list sv lid w = (r, w1)"
    by (cases "get_product_list sv lid w")
  note f = get_product_list_frame [OF req]
  show ?case
  proof (cases r)
    case (Inl e)
    with step(2) req have "y = (Inl e, w1)" by simp
    with f show ?thesis by simp
  next
    case (Inr p)
    show ?thesis
    proof (cases "result_total p = int (length (acc @ result_items p))")
      case True
      with step(2) req Inr have "y = (Inr (acc @ result_items p), w1)" by (simp add: Let_def)
      with f show ?thesis by simp
    next
      case False
      with step(2) req Inr
      have "loop sv (result_last_id p) (acc @ result_items p) w1 = Some y" by (simp add: Let_def)
      from step(1) [OF this] have "snd y = w1\<lparr>server := server (snd y)\<rparr>" .
      with f show ?thesis by (metis world.surjective world.update_convs(1))
    qed
  qed
qed

lemma get_offer_ids_frame:
  "get_offer_ids sv w = Some (r, w') \<Longrightarrow> w' = w\<lparr>server := server w'\<rparr>"
  by (auto simp: get_offer_ids_def split: option.splits prod.splits sum.splits
      dest: get_offer_ids_loop_frame)

lemma download_stock_frame:
  "download_stock sv w = (r, w') \<Longrightarrow>
   stocks_sent w' = stocks_sent w \<and> prices_sent w' = prices_sent w \<and> printed w' = printed w"
  by (auto simp: download_stock_def Let_def split: prod.splits sum.splits option.splits)

lemma for_each_update_stocks:
  "for_each (update_stocks sv) bs w = (r, w') \<Longrightarrow>
   \<exists>k \<le> length bs. stocks_sent w' = stocks_sent w @ take k bs
      \<and> prices_sent w' = prices_sent w \<and> printed w' = printed w
      \<and> (r = Inr () \<longrightarrow> k = length bs)"
proof (induction bs arbitrary: w)
  case Nil
  then show ?case by auto
next
  case (Cons b bs)
  obtain r1 w1 where u: "update_stocks sv b w = (r1, w1)"
    by (cases "update_stocks sv b w")
  then have f: "stocks_sent w1 = stocks_sent w @ [b] \<and> prices_sent w1 = prices_sent w
                \<and> printed w1 = printed w"
    by (auto simp: update_stocks_def split: prod.splits)
  show ?case
  proof (cases r1)
    case (Inl e)
    with Cons.prems u have "r = Inl e" "w' = w1" by simp_all
    with f have "stocks_sent w' = stocks_sent w @ take 1 (b # bs)
      \<and> prices_sent w' = prices_sent w \<and> printed w' = printed w \<and> (r = Inr () \<longrightarrow> 1 = length (b # bs))"
      by simp
    then show ?thesis by (intro exI [of _ 1]) simp
  next
    case (Inr u1)
    with Cons.prems u have "for_each (update_stocks sv) bs w1 = (r, w')" by simp
    from Cons.IH [OF this] obtain k where "k \<le> length bs"
      "stocks_sent w' = stocks_sent w1 @ take k bs"
      "prices_sent w' = prices_sent w1" "printed w' = printed w1" "r = Inr () \<longrightarrow> k = length bs"
      by blast
    with f show ?thesis by (intro exI [of _ "Suc k"]) simp
  qed
qed



lemma divide_returns: "0 < n \<Longrightarrow> \<exists>chunks. divide xs n = Inr chunks"
  by (simp add: divide_pos)




section \<open>The run of \<^verbatim>\<open>main\<close>\<close>

lemma create_prices_loop_none:
  "\<forall>x \<in> set rows. py_str (Kod x) \<notin> set ids \<Longrightarrow> create_prices_loop rows acc ids = Inr acc"
  by (induction rows arbitrary: acc) simp_all

lemma create_stocks_consumes:
  assumes "distinct ids" and "create_stocks rows ids = (Inr stocks, rest)"
  shows "\<forall>x \<in> set rows. py_str (Kod x) \<notin> set rest"
proof -
  from assms(2) obtain st where "create_stocks_loop rows [] ids = (Inr st, rest)"
    by (auto simp: create_stocks_def split: prod.splits sum.splits)
  with assms(1) show ?thesis by (rule create_stocks_loop_consumes)
qed


lemma main_updates_no_prices:
  assumes "distinct ids" and "main_updates sv rows ids w = (r, w')"
  shows "prices_sent w' = prices_sent w"
proof -
  obtain rs rest where cs: "create_stocks rows ids = (rs, rest)"
    by (cases "create_stocks rows ids")
  show ?thesis
  proof (cases rs)
    case (Inl e)
    with assms(2) cs show ?thesis by (simp add: main_updates_def)
  next
    case stocks: (Inr stocks)
    from create_stocks_consumes [OF assms(1)] cs stocks
    have "\<forall>x \<in> set rows. py_str (Kod x) \<notin> set rest" by simp
    then have np: "create_prices rows rest = Inr []"
      by (simp add: create_prices_def create_prices_loop_none)
    have nd: "divide ([] :: price_update list) 900 = Inr []"
      by (simp add: divide_Nil)
    obtain chunks where d: "divide stocks 100 = Inr chunks"
      using divide_returns [of 100 stocks] by auto
    obtain r1 w1 where fe: "for_each (update_stocks sv) chunks w = (r1, w1)"
      by (cases "for_each (update_stocks sv) chunks w")
    from for_each_update_stocks [OF fe] have keep: "prices_sent w1 = prices_sent w" by blast
    from assms(2) cs stocks d fe np nd have "w' = w1"
      by (cases r1) (simp_all add: main_updates_def)
    with keep show ?thesis by simp
  qed
qed

text \<open>
  Claim C10. In \<open>main\<close>, \<open>create_prices\<close> receives the offer ids as \<open>create_stocks\<close> left
  them. For distinct offer ids that list holds the code of no row, so the price updates
  built are the empty list, and \<open>main\<close> ends having posted no price update.
\<close>

theorem main_builds_no_prices:
  assumes "get_offer_ids sv w = Some (Inr offer_ids, w1)"
    and "distinct offer_ids"
    and "download_stock sv w1 = (Inr watch_remnants, w2)"
  shows "(\<forall>stocks rest. create_stocks watch_remnants offer_ids = (Inr stocks, rest) \<longrightarrow>
            (\<forall>x \<in> set watch_remnants. py_str (Kod x) \<notin> set rest)
            \<and> create_prices watch_remnants rest = Inr [])
         \<and> (\<exists>w'. main sv w = Some w' \<and> prices_sent w' = prices_sent w)"
proof
  show "\<forall>stocks rest. create_stocks watch_remnants offer_ids = (Inr stocks, rest) \<longrightarrow>
            (\<forall>x \<in> set watch_remnants. py_str (Kod x) \<notin> set rest)
            \<and> create_prices watch_remnants rest = Inr []"
  proof (intro allI impI)
    fix stocks rest
    assume "create_stocks watch_remnants offer_ids = (Inr stocks, rest)"
    with assms(2) have none: "\<forall>x \<in> set watch_remnants. py_str (Kod x) \<notin> set rest"
      by (rule create_stocks_consumes)
    then have "create_prices watch_remnants rest = Inr []"
      by (simp add: create_prices_def create_prices_loop_none)
    with none show "(\<forall>x \<in> set watch_remnants. py_str (Kod x) \<notin> set rest)
            \<and> create_prices watch_remnants rest = Inr []" by simp
  qed
next
  obtain r w3 where mu: "main_updates sv watch_remnants offer_ids w2 = (r, w3)"
    by (cases "main_updates sv watch_remnants offer_ids w2")
  from main_updates_no_prices [OF assms(2) mu] have "prices_sent w3 = prices_sent w2" .
  also from download_stock_frame [OF assms(3)] have "\<dots> = prices_sent w1" by simp
  also from get_offer_ids_frame [OF assms(1)] have "\<dots> = prices_sent w"
    by (metis world.select_convs(4) world.surjective world.update_convs(1))
  finally have keep: "prices_sent w3 = prices_sent w" .
  from assms(1,3) mu have "main_try sv w = Some (r, w3)"
    by (simp add: main_try_def)
  with keep show "\<exists>w'. main sv w = Some w' \<and> prices_sent w' = prices_sent w"
    by (cases r) (simp_all add: main_def)
qed

section \<open>The example shop\<close>

lemma shop_offer_ids:
  "get_offer_ids shop_services fresh_world = Some (Inr [''A'', ''B''], fresh_world\<lparr>server := Suc 0\<rparr>)"
  unfolding get_offer_ids_def
  by (subst get_offer_ids_loop.simps)
     (simp add: get_product_list_def shop_services_def serve_two_offers_def two_offers_page_def
        fresh_world_def)

lemma shop_download:
  "download_stock shop_services (fresh_world\<lparr>server := Suc 0\<rparr>)
     = (Inr example_rows, fresh_world\<lparr>server := Suc 0\<rparr>)"
  by (simp add: download_stock_def shop_services_def serve_archive_def one_sheet_def
        parse_example_def extractall_def os_remove_def fresh_world_def Let_def)

lemma example_stocks:
  "create_stocks example_rows [''A'', ''B''] =
     (Inr [\<lparr>offer_id = ''A'', stock = 100\<rparr>, \<lparr>offer_id = ''B'', stock = 0\<rparr>], [''B''])"
  by (simp add: create_stocks_def example_rows_def stock_of_count_def)

lemma divide_single: "xs \<noteq> [] \<Longrightarrow> int (length xs) \<le> n \<Longrightarrow> divide xs n = Inr [xs]"
proof -
  assume ne: "xs \<noteq> []" and le: "int (length xs) \<le> n"
  then have n: "0 < n" by (cases xs) auto
  have "range_up 0 (int (length xs)) n = [0]"
    using ne le n by (subst range_up.simps, subst range_up.simps) simp
  moreover have "py_slice xs 0 n = xs"
    using py_slice_chunk [of 0 n xs] n le by simp
  ultimately show ?thesis using n
    by (simp add: divide_pos)
qed

lemma example_prices_none: "create_prices example_rows [''B''] = Inr []"
  by (simp add: create_prices_def example_rows_def)

lemma shop_update_stocks:
  "update_stocks shop_services stocks w = (Inr (), w\<lparr>stocks_sent := stocks_sent w @ [stocks]\<rparr>)"
  by (simp add: update_stocks_def shop_services_def accept_stocks_def)

lemma fresh_world_sent:
  "stocks_sent (fresh_world\<lparr>server := k\<rparr>) = [] \<and> prices_sent (fresh_world\<lparr>server := k\<rparr>) = []"
  by (simp add: fresh_world_def)

lemma shop_main_updates:
  "main_updates shop_services example_rows [''A'', ''B''] (fresh_world\<lparr>server := Suc 0\<rparr>) =
     (Inr (), fresh_world\<lparr>server := Suc 0,
             stocks_sent := [[\<lparr>offer_id = ''A'', stock = 100\<rparr>, \<lparr>offer_id = ''B'', stock = 0\<rparr>]]\<rparr>)"
  by (simp add: main_updates_def example_stocks example_prices_none divide_single divide_Nil
        shop_update_stocks fresh_world_sent)

lemma shop_main:
  "main shop_services fresh_world =
     Some (fresh_world\<lparr>server := Suc 0,
             stocks_sent := [[\<lparr>offer_id = ''A'', stock = 100\<rparr>, \<lparr>offer_id = ''B'', stock = 0\<rparr>]]\<rparr>)"
  by (simp add: main_def main_try_def shop_offer_ids shop_download shop_main_updates)

theorem main_builds_no_prices_witness:
  "get_offer_ids shop_services fresh_world = Some (Inr [''A'', ''B''], fresh_world\<lparr>server := Suc 0\<rparr>)
   \<and> distinct [''A'', ''B'']
   \<and> download_stock shop_services (fresh_world\<lparr>server := Suc 0\<rparr>)
       = (Inr example_rows, fresh_world\<lparr>server := Suc 0\<rparr>)
   \<and> create_stocks example_rows [''A'', ''B''] =
       (Inr [\<lparr>offer_id = ''A'', stock = 100\<rparr>, \<lparr>offer_id = ''B'', stock = 0\<rparr>], [''B''])
   \<and> create_prices example_rows [''B''] = Inr []
   \<and> (\<exists>w'. main shop_services fresh_world = Some w' \<and> prices_sent w' = [])"
proof -
  have d: "distinct [''A'', ''B'']" by simp
  from main_builds_no_prices [OF shop_offer_ids d shop_download] example_stocks
  have "create_prices example_rows [''B''] = Inr []"
    and "\<exists>w'. main shop_services fresh_world = Some w' \<and> prices_sent w' = prices_sent fresh_world"
    by blast+
  with shop_offer_ids shop_download example_stocks d show ?thesis
    by (simp add: fresh_world_def)
qed

section \<open>Batches\<close>






section \<open>Endpoints that accept every update\<close>








section \<open>The bulk example\<close>

















end
